theory Spec2Isabelle
  imports Main "HOL-Library.Word"
begin

section \<open>JavaScript values used by the two pages\<close>

text \<open>
  A JavaScript string is a sequence of UTF-16 code units. Literals of the source are
  written with \<open>lit\<close>, which maps each ASCII character to its code unit.
\<close>

type_synonym jsstring = "16 word list"

definition lit :: "string \<Rightarrow> jsstring" where
  "lit s = map of_char s"

text \<open>
  \<open>String.prototype.trim\<close> removes the code units of the ECMAScript productions
  WhiteSpace (TAB, VT, FF, ZWNBSP and the space separators) and LineTerminator
  (LF, CR, LS, PS) from both ends.
\<close>

definition is_whitespace :: "16 word \<Rightarrow> bool" where
  "is_whitespace c \<longleftrightarrow>
     c \<in> {0x0009, 0x000A, 0x000B, 0x000C, 0x000D, 0x0020, 0x00A0, 0x1680,
          0x2028, 0x2029, 0x202F, 0x205F, 0x3000, 0xFEFF}
     \<or> (0x2000 \<le> c \<and> c \<le> 0x200A)"

definition trim :: "jsstring \<Rightarrow> jsstring" where
  "trim s = rev (dropWhile is_whitespace (rev (dropWhile is_whitespace s)))"

text \<open>Decimal digits of a natural number, as a template literal prints a status code.\<close>

fun show_nat :: "nat \<Rightarrow> jsstring" where
  "show_nat n =
     (if n < 10 then [of_nat (48 + n)]
      else show_nat (n div 10) @ [of_nat (48 + n mod 10)])"

text \<open>
  The value \<open>JSON.parse\<close> produces. An object is the list of its own properties, each
  key once. A number is kept as the text JavaScript prints for it, \<open>0\<close> for zero of
  either sign: the pages only test a number for truth and convert it to a string.
\<close>

datatype json =
    JNull
  | JBool bool
  | JNum jsstring
  | JStr jsstring
  | JArr "json list"
  | JObj "(jsstring \<times> json) list"

text \<open>What \<open>!v\<close>, \<open>v && _\<close> and \<open>v || _\<close> test.\<close>

fun truthy :: "json \<Rightarrow> bool" where
  "truthy JNull = False"
| "truthy (JBool b) = b"
| "truthy (JNum n) = (n \<noteq> lit ''0'')"
| "truthy (JStr s) = (s \<noteq> [])"
| "truthy (JArr _) = True"
| "truthy (JObj _) = True"

fun join :: "jsstring \<Rightarrow> jsstring list \<Rightarrow> jsstring" where
  "join sep [] = []"
| "join sep [x] = x"
| "join sep (x # y # ys) = x @ sep @ join sep (y # ys)"

text \<open>What a \<open>throw\<close> or a rejected promise carries: an \<open>Error\<close> with its message, or
  a value that is not an \<open>Error\<close>.\<close>

datatype thrown = Error jsstring | Thrown_other

text \<open>\<open>err instanceof Error ? err.message : fallback\<close>\<close>

fun catch_message :: "jsstring \<Rightarrow> thrown \<Rightarrow> jsstring" where
  "catch_message fallback (Error m) = m"
| "catch_message fallback Thrown_other = fallback"

text \<open>
  The conversion \<open>new Error(v)\<close> applies to its argument. A string is itself. An array is
  its elements, converted from left to right and joined by commas, with \<open>null\<close> printed
  as nothing. An object is converted by its \<open>toString\<close> method: a parsed object without
  an own property of that name inherits \<open>Object.prototype.toString\<close> and prints as a
  fixed text; with such a property, which is never a function, no method returns a
  primitive (the inherited \<open>valueOf\<close> returns the object) and the conversion throws a
  \<open>TypeError\<close> (the message is the engine's; V8's is used).
\<close>

definition cannot_convert_message :: jsstring where
  "cannot_convert_message = lit ''Cannot convert object to primitive value''"

fun ToString :: "json \<Rightarrow> thrown + jsstring"
  and ToString_elements :: "json list \<Rightarrow> thrown + jsstring list" where
  "ToString JNull = Inr (lit ''null'')"
| "ToString (JBool b) = Inr (if b then lit ''true'' else lit ''false'')"
| "ToString (JNum n) = Inr n"
| "ToString (JStr s) = Inr s"
| "ToString (JArr xs) =
     (case ToString_elements xs of
        Inl e \<Rightarrow> Inl e
      | Inr ts \<Rightarrow> Inr (join (lit '','') ts))"
| "ToString (JObj kvs) =
     (if map_of kvs (lit ''toString'') = None then Inr (lit ''[object Object]'')
      else Inl (Error cannot_convert_message))"
| "ToString_elements [] = Inr []"
| "ToString_elements (x # xs) =
     (case (if x = JNull then Inr [] else ToString x) of
        Inl e \<Rightarrow> Inl e
      | Inr t \<Rightarrow>
          (case ToString_elements xs of
             Inl e \<Rightarrow> Inl e
           | Inr ts \<Rightarrow> Inr (t # ts)))"

text \<open>
  Reading \<open>.error\<close> of a parsed body. On \<open>null\<close> the read throws a \<open>TypeError\<close> (the
  message is the engine's; V8's is used), on an object it is the own property or
  \<open>undefined\<close>, on every other value it is \<open>undefined\<close>.
\<close>

definition null_read_message :: jsstring where
  "null_read_message = lit ''Cannot read properties of null (reading 'error')''"

fun get_error :: "json \<Rightarrow> thrown + json option" where
  "get_error JNull = Inl (Error null_read_message)"
| "get_error (JObj kvs) = Inr (map_of kvs (lit ''error''))"
| "get_error _ = Inr None"

text \<open>\<open>v || d\<close>, with \<open>None\<close> for \<open>undefined\<close>.\<close>

fun js_or :: "json option \<Rightarrow> json \<Rightarrow> json" where
  "js_or None d = d"
| "js_or (Some v) d = (if truthy v then v else d)"

text \<open>\<open>new Error(v)\<close>: the \<open>Error\<close> with the converted message, or what the conversion
  throws.\<close>

definition new_Error :: "json \<Rightarrow> thrown + thrown" where
  "new_Error v = (case ToString v of Inl e \<Rightarrow> Inl e | Inr m \<Rightarrow> Inr (Error m))"

section \<open>The network\<close>

text \<open>
  A request as \<open>fetch\<close> sends it: a GET of a URL, or a POST of a URL with the header
  \<open>Content-Type: application/json\<close> and the text of a JSON value as body.
\<close>

datatype request = GET jsstring | POST jsstring json

text \<open>
  A response is its status code and what \<open>response.json()\<close> settles with: the parsed
  value, or the error the parser rejects with. A fetch settles with a response or
  rejects with what the platform throws on a network failure.
\<close>

record response =
  status :: nat
  json_body :: "thrown + json"

type_synonym outcome = "thrown + response"

definition response_ok :: "response \<Rightarrow> bool" where
  "response_ok r \<longleftrightarrow> 200 \<le> status r \<and> status r \<le> 299"

section \<open>State shared by the two pages\<close>

datatype ServiceStatus = Status_ok | Status_error | Status_loading

record page_state =
  prompt :: jsstring
  isLoading :: bool
  error :: "jsstring option"
  statuses :: "jsstring \<rightharpoonup> ServiceStatus"

text \<open>\<open>response.ok ? 'ok' : 'error'\<close>, and \<open>'error'\<close> in the \<open>catch\<close>.\<close>

fun probe_status :: "outcome \<Rightarrow> ServiceStatus" where
  "probe_status (Inl _) = Status_error"
| "probe_status (Inr r) = (if response_ok r then Status_ok else Status_error)"

text \<open>\<open>{error && <p>Error: {error}</p>}\<close>: nothing is rendered for \<open>null\<close> and for the
  empty string.\<close>

definition error_banner :: "'a page_state_scheme \<Rightarrow> jsstring option" where
  "error_banner st =
     (case error st of
        None \<Rightarrow> None
      | Some m \<Rightarrow> if m = [] then None else Some (lit ''Error: '' @ m))"

section \<open>The single-response page (\<open>src/app/page.tsx\<close>)\<close>

definition SUPERVISOR_URL_B :: jsstring where
  "SUPERVISOR_URL_B = lit ''https://jaevis-orchestrator-4mlg2xcs5q-an.a.run.app''"

text \<open>\<open>lastResponse\<close> is \<open>null\<close> or the parsed body; the annotation \<open>AiOutputs\<close> is not
  checked when the page runs.\<close>

record stateB = page_state +
  lastResponse :: json

definition Home_B :: stateB where
  "Home_B = \<lparr>prompt = [], isLoading = False, error = None,
            statuses = [lit ''supervisor'' \<mapsto> Status_loading], lastResponse = JNull\<rparr>"

text \<open>\<open>checkServiceStatus\<close>: the request it sends, and what it does when the fetch settles.\<close>

definition checkServiceStatus_B_request :: request where
  "checkServiceStatus_B_request = GET (SUPERVISOR_URL_B @ lit ''/health'')"

definition checkServiceStatus_B :: "outcome \<Rightarrow> stateB \<Rightarrow> stateB" where
  "checkServiceStatus_B out st = st\<lparr>statuses := [lit ''supervisor'' \<mapsto> probe_status out]\<rparr>"

definition request_failed :: "nat \<Rightarrow> jsstring" where
  "request_failed n = lit ''Request failed with status '' @ show_nat n"

text \<open>
  \<open>handleSubmit\<close> up to its first \<open>await\<close>: the guard on the trimmed prompt, the three
  setters and the POST. \<open>None\<close> is the early \<open>return\<close>.
\<close>

definition handleSubmit_B_begin :: "stateB \<Rightarrow> stateB \<times> request option" where
  "handleSubmit_B_begin st =
     (if trim (prompt st) = [] then (st, None)
      else (st\<lparr>isLoading := True, error := None, lastResponse := JNull\<rparr>,
            Some (POST SUPERVISOR_URL_B (JObj [(lit ''prompt'', JStr (prompt st))]))))"

text \<open>The body of the \<open>try\<close> after the fetch has settled: \<open>Inl\<close> is what it throws.\<close>

definition handleSubmit_B_try :: "outcome \<Rightarrow> stateB \<Rightarrow> thrown + stateB" where
  "handleSubmit_B_try out st =
     (case out of
        Inl e \<Rightarrow> Inl e
      | Inr r \<Rightarrow>
          if \<not> response_ok r then
            (let errorData =
                   (case json_body r of
                      Inl _ \<Rightarrow> JObj [(lit ''error'', JStr (request_failed (status r)))]
                    | Inr j \<Rightarrow> j)
             in case get_error errorData of
                  Inl e \<Rightarrow> Inl e
                | Inr v \<Rightarrow>
                    (case new_Error (js_or v (JStr (request_failed (status r)))) of
                       Inl e \<Rightarrow> Inl e
                     | Inr err \<Rightarrow> Inl err))
          else
            (case json_body r of
               Inl e \<Rightarrow> Inl e
             | Inr data \<Rightarrow> Inr (st\<lparr>lastResponse := data, prompt := []\<rparr>)))"

text \<open>The \<open>catch\<close> and the \<open>finally\<close>.\<close>

definition handleSubmit_B_resume :: "outcome \<Rightarrow> stateB \<Rightarrow> stateB" where
  "handleSubmit_B_resume out st =
     (let st' = (case handleSubmit_B_try out st of
                   Inl e \<Rightarrow> st\<lparr>error := Some (catch_message (lit ''Failed to submit prompt'') e)\<rparr>
                 | Inr st1 \<Rightarrow> st1)
      in st'\<lparr>isLoading := False\<rparr>)"

text \<open>One submission from the click to the last setter, with the requests it sent;
  \<open>out\<close> is how the POST settles.\<close>

definition handleSubmit_B :: "outcome \<Rightarrow> stateB \<Rightarrow> stateB \<times> request list" where
  "handleSubmit_B out st =
     (case handleSubmit_B_begin st of
        (st1, None) \<Rightarrow> (st1, [])
      | (st1, Some req) \<Rightarrow> (handleSubmit_B_resume out st1, [req]))"

text \<open>\<open>ResponseViewer\<close>: nothing for a falsy \<open>response\<close>, else the value whose
  \<open>JSON.stringify\<close> text fills the panel.\<close>

definition ResponseViewer :: "json \<Rightarrow> json option" where
  "ResponseViewer response = (if \<not> truthy response then None else Some response)"

text \<open>A body of the declared type \<open>Record<string, string>\<close>.\<close>

fun is_string :: "json \<Rightarrow> bool" where
  "is_string (JStr _) = True"
| "is_string _ = False"

fun AiOutputs :: "json \<Rightarrow> bool" where
  "AiOutputs (JObj kvs) = list_all (\<lambda>kv. is_string (snd kv)) kvs"
| "AiOutputs _ = False"

section \<open>The log-oriented page (\<open>src/unnamed/part_000\<close>)\<close>

definition SUPERVISOR_URL_A :: jsstring where
  "SUPERVISOR_URL_A = lit ''https://supervisor-service-497428235894.asia-northeast1.run.app/''"

definition MONITOR_URL :: jsstring where
  "MONITOR_URL = lit ''https://monitor-service-497428235894.asia-northeast1.run.app/logs''"

text \<open>\<open>logs\<close> holds the parsed body of the last successful listing, \<open>[]\<close> at first.\<close>

record stateA = page_state +
  logs :: json

definition Home_A :: stateA where
  "Home_A = \<lparr>prompt = [], isLoading = False, error = None,
            statuses = [lit ''supervisor'' \<mapsto> Status_loading,
                        lit ''orchestrator'' \<mapsto> Status_loading,
                        lit ''monitor'' \<mapsto> Status_loading],
            logs = JArr []\<rparr>"

subsection \<open>\<open>fetchLogs\<close>\<close>

text \<open>The request carries the clock reading \<open>new Date().getTime()\<close>.\<close>

definition fetchLogs_request :: "nat \<Rightarrow> request" where
  "fetchLogs_request now = GET (MONITOR_URL @ lit ''?limit=20&t='' @ show_nat now)"

definition fetchLogs_try :: "outcome \<Rightarrow> stateA \<Rightarrow> thrown + stateA" where
  "fetchLogs_try out st =
     (case out of
        Inl e \<Rightarrow> Inl e
      | Inr r \<Rightarrow>
          if \<not> response_ok r then Inl (Error (lit ''Failed to fetch logs''))
          else (case json_body r of
                  Inl e \<Rightarrow> Inl e
                | Inr data \<Rightarrow> Inr (st\<lparr>logs := data\<rparr>)))"

definition fetchLogs_resume :: "outcome \<Rightarrow> stateA \<Rightarrow> stateA" where
  "fetchLogs_resume out st =
     (case fetchLogs_try out st of
        Inl e \<Rightarrow> st\<lparr>error := Some (catch_message (lit ''An unknown error occurred'') e)\<rparr>
      | Inr st1 \<Rightarrow> st1)"

subsection \<open>\<open>checkServiceStatus\<close>\<close>

definition services :: "(jsstring \<times> jsstring) list" where
  "services =
     [(lit ''supervisor'',
         lit ''https://supervisor-service-497428235894.asia-northeast1.run.app/health''),
      (lit ''orchestrator'',
         lit ''https://orchestrator-service-497428235894.asia-northeast1.run.app/health''),
      (lit ''monitor'',
         lit ''https://monitor-service-497428235894.asia-northeast1.run.app/logs'')]"

text \<open>\<open>setStatuses((prev) => ({ ...prev, [name]: ... }))\<close>, in the \<open>try\<close> and in the
  \<open>catch\<close>.\<close>

definition probe_resume :: "jsstring \<Rightarrow> outcome \<Rightarrow> stateA \<Rightarrow> stateA" where
  "probe_resume name out st = st\<lparr>statuses := (statuses st)(name \<mapsto> probe_status out)\<rparr>"

text \<open>
  The \<open>for\<close> loop with its \<open>await\<close> inside, run to the end: \<open>env\<close> tells how the fetch of
  each URL settles; the requests are listed in the order they are sent.
\<close>

fun checkServiceStatus_loop ::
  "(jsstring \<times> jsstring) list \<Rightarrow> (jsstring \<Rightarrow> outcome) \<Rightarrow> stateA \<Rightarrow> stateA \<times> request list" where
  "checkServiceStatus_loop [] env st = (st, [])"
| "checkServiceStatus_loop ((name, url) # rest) env st =
     (let (st', reqs) = checkServiceStatus_loop rest env (probe_resume name (env url) st)
      in (st', GET url # reqs))"

definition checkServiceStatus_A :: "(jsstring \<Rightarrow> outcome) \<Rightarrow> stateA \<Rightarrow> stateA \<times> request list" where
  "checkServiceStatus_A env st = checkServiceStatus_loop services env st"

subsection \<open>\<open>handleSubmit\<close>\<close>

definition supervisor_failed :: "nat \<Rightarrow> jsstring" where
  "supervisor_failed n = lit ''Supervisor request failed with status '' @ show_nat n"

definition handleSubmit_A_begin :: "stateA \<Rightarrow> stateA \<times> request option" where
  "handleSubmit_A_begin st =
     (if trim (prompt st) = [] then (st, None)
      else (st\<lparr>isLoading := True, error := None\<rparr>,
            Some (POST SUPERVISOR_URL_A (JObj [(lit ''prompt'', JStr (prompt st))]))))"

text \<open>The body of the \<open>try\<close> after the fetch has settled: it throws, or it calls
  \<open>setTimeout\<close> with the delay returned here.\<close>

definition handleSubmit_A_try :: "outcome \<Rightarrow> thrown + nat" where
  "handleSubmit_A_try out =
     (case out of
        Inl e \<Rightarrow> Inl e
      | Inr r \<Rightarrow> if \<not> response_ok r then Inl (Error (supervisor_failed (status r)))
                else Inr 8000)"

definition handleSubmit_A_resume :: "outcome \<Rightarrow> stateA \<Rightarrow> stateA \<times> nat option" where
  "handleSubmit_A_resume out st =
     (case handleSubmit_A_try out of
        Inl e \<Rightarrow> (st\<lparr>error := Some (catch_message (lit ''Failed to submit prompt'') e),
                      isLoading := False\<rparr>, None)
      | Inr delay \<Rightarrow> (st, Some delay))"

text \<open>The timer's callback \<open>fetchLogs().finally(() => setIsLoading(false))\<close>, once its
  fetch has settled.\<close>

definition timer_callback_resume :: "outcome \<Rightarrow> stateA \<Rightarrow> stateA" where
  "timer_callback_resume out st = (fetchLogs_resume out st)\<lparr>isLoading := False\<rparr>"

text \<open>
  One submission until the promise of \<open>handleSubmit\<close> settles: the state, the requests
  sent, and the delay of the timer if one was set. \<open>out\<close> is how the POST settles.
\<close>

definition handleSubmit_A :: "outcome \<Rightarrow> stateA \<Rightarrow> stateA \<times> request list \<times> nat option" where
  "handleSubmit_A out st =
     (case handleSubmit_A_begin st of
        (st1, None) \<Rightarrow> (st1, [], None)
      | (st1, Some req) \<Rightarrow>
          (case handleSubmit_A_resume out st1 of (st2, timer) \<Rightarrow> (st2, [req], timer)))"

subsection \<open>\<open>LogItem\<close>\<close>

record Log =
  log_id :: jsstring
  user_prompt :: jsstring
  summary :: jsstring
  ai_outputs :: json
  timestamp :: jsstring

text \<open>The two texts of the button, \<open>detail view\<close> and \<open>close details\<close> in Japanese.\<close>

datatype toggle_label = Show_details | Close_details

text \<open>What depends on \<open>isExpanded\<close> in the rendered item: the button's text and the
  block of \<open>log.ai_outputs\<close>, present only when expanded.\<close>

record LogItem_view =
  button_label :: toggle_label
  details :: "json option"

definition LogItem :: "Log \<Rightarrow> bool \<Rightarrow> LogItem_view" where
  "LogItem log isExpanded =
     \<lparr>button_label = (if isExpanded then Close_details else Show_details),
      details = (if isExpanded then Some (ai_outputs log) else None)\<rparr>"

text \<open>The button's \<open>onClick\<close>: the new \<open>isExpanded\<close> and the requests it sends.\<close>

definition LogItem_onClick :: "bool \<Rightarrow> bool \<times> request list" where
  "LogItem_onClick isExpanded = (\<not> isExpanded, [])"

subsection \<open>The page on the event loop\<close>

text \<open>
  An \<open>async\<close> function runs until an \<open>await\<close> and resumes when the awaited fetch
  settles. A fetch in flight is kept with what resumes on it: the rest of
  \<open>handleSubmit\<close>; the rest of \<open>fetchLogs\<close>, with the flag set when the call came from
  the timer and \<open>setIsLoading(false)\<close> follows it; or the rest of the loop of
  \<open>checkServiceStatus\<close>, with the service probed and the services still to probe.
  The read of the body is folded into the settling of the fetch.
\<close>

datatype kont =
    K_submit
  | K_fetchLogs bool
  | K_probe jsstring "(jsstring \<times> jsstring) list"

text \<open>
  The clock counts milliseconds. \<open>timers\<close> holds the due time of every pending
  \<open>setTimeout\<close>; the page sets timers with one callback only. \<open>sent\<close> lists every
  request with the time it was sent.
\<close>

record world =
  ui :: stateA
  clock :: nat
  inflight :: "(request \<times> kont) list"
  timers :: "nat list"
  sent :: "(nat \<times> request \<times> kont) list"

definition issue :: "request \<Rightarrow> kont \<Rightarrow> world \<Rightarrow> world" where
  "issue req k w =
     w\<lparr>inflight := inflight w @ [(req, k)], sent := sent w @ [(clock w, req, k)]\<rparr>"

text \<open>The loop of \<open>checkServiceStatus\<close> up to its next \<open>await\<close>.\<close>

fun checkServiceStatus_next :: "(jsstring \<times> jsstring) list \<Rightarrow> world \<Rightarrow> world" where
  "checkServiceStatus_next [] w = w"
| "checkServiceStatus_next ((name, url) # rest) w = issue (GET url) (K_probe name rest) w"

fun resume :: "kont \<Rightarrow> outcome \<Rightarrow> world \<Rightarrow> world" where
  "resume K_submit out w =
     (case handleSubmit_A_resume out (ui w) of
        (st, None) \<Rightarrow> w\<lparr>ui := st\<rparr>
      | (st, Some delay) \<Rightarrow> w\<lparr>ui := st, timers := timers w @ [clock w + delay]\<rparr>)"
| "resume (K_fetchLogs from_timer) out w =
     w\<lparr>ui := (if from_timer then timer_callback_resume out (ui w)
               else fetchLogs_resume out (ui w))\<rparr>"
| "resume (K_probe name rest) out w =
     checkServiceStatus_next rest (w\<lparr>ui := probe_resume name out (ui w)\<rparr>)"

text \<open>The effect on mount: \<open>fetchLogs(); checkServiceStatus();\<close>\<close>

definition mount :: "world \<Rightarrow> world" where
  "mount w =
     checkServiceStatus_next services
       (issue (fetchLogs_request (clock w)) (K_fetchLogs False) w)"

definition initial_world :: "nat \<Rightarrow> world" where
  "initial_world t0 =
     mount \<lparr>ui = Home_A, clock = t0, inflight = [], timers = [], sent = []\<rparr>"

text \<open>
  What can happen next: time passes; a fetch in flight settles; a timer fires; the user
  submits the form, types into the textarea, or clicks the refresh button.
\<close>

datatype event =
    Tick nat
  | Settle nat outcome
  | Fire nat
  | Submit
  | Typing jsstring
  | Refresh

definition remove_nth :: "nat \<Rightarrow> 'a list \<Rightarrow> 'a list" where
  "remove_nth i xs = take i xs @ drop (Suc i) xs"

text \<open>
  One turn of the event loop, \<open>None\<close> when the event cannot happen: a timer fires only
  when it is due, and the textarea and the submit button carry \<open>disabled={isLoading}\<close>.
\<close>

fun step :: "event \<Rightarrow> world \<Rightarrow> world option" where
  "step (Tick d) w = Some (w\<lparr>clock := clock w + d\<rparr>)"
| "step (Settle i out) w =
     (if i < length (inflight w)
      then Some (resume (snd (inflight w ! i)) out (w\<lparr>inflight := remove_nth i (inflight w)\<rparr>))
      else None)"
| "step (Fire i) w =
     (if i < length (timers w) \<and> timers w ! i \<le> clock w
      then Some (issue (fetchLogs_request (clock w)) (K_fetchLogs True)
                   (w\<lparr>timers := remove_nth i (timers w)\<rparr>))
      else None)"
| "step Submit w =
     (if isLoading (ui w) then None
      else (case handleSubmit_A_begin (ui w) of
              (st, None) \<Rightarrow> Some (w\<lparr>ui := st\<rparr>)
            | (st, Some req) \<Rightarrow> Some (issue req K_submit (w\<lparr>ui := st\<rparr>))))"
| "step (Typing s) w =
     (if isLoading (ui w) then None else Some (w\<lparr>ui := (ui w)\<lparr>prompt := s\<rparr>\<rparr>))"
| "step Refresh w = Some (issue (fetchLogs_request (clock w)) (K_fetchLogs False) w)"

fun run :: "event list \<Rightarrow> world \<Rightarrow> world option" where
  "run [] w = Some w"
| "run (e # es) w = (case step e w of None \<Rightarrow> None | Some w' \<Rightarrow> run es w')"

text \<open>The re-fetches of the submission flow among the requests sent.\<close>

definition refetches :: "(nat \<times> request \<times> kont) list \<Rightarrow> (nat \<times> request \<times> kont) list" where
  "refetches xs = filter (\<lambda>x. snd (snd x) = K_fetchLogs True) xs"

text \<open>Every request of \<open>fetchLogs\<close>, and those not started by the timer (the one on
  mount and those of the refresh button).\<close>

fun is_fetchLogs :: "kont \<Rightarrow> bool" where
  "is_fetchLogs (K_fetchLogs _) = True"
| "is_fetchLogs _ = False"

definition log_fetches :: "(nat \<times> request \<times> kont) list \<Rightarrow> (nat \<times> request \<times> kont) list" where
  "log_fetches xs = filter (\<lambda>x. is_fetchLogs (snd (snd x))) xs"

definition manual_fetches :: "(nat \<times> request \<times> kont) list \<Rightarrow> (nat \<times> request \<times> kont) list" where
  "manual_fetches xs = filter (\<lambda>x. snd (snd x) = K_fetchLogs False) xs"

text \<open>The fetches in flight that are re-fetches of the submission flow, and those that
  are the POST of \<open>handleSubmit\<close>.\<close>

definition refetching :: "world \<Rightarrow> nat" where
  "refetching w = length (filter (\<lambda>x. snd x = K_fetchLogs True) (inflight w))"

definition posting :: "world \<Rightarrow> nat" where
  "posting w = length (filter (\<lambda>x. snd x = K_submit) (inflight w))"

subsection \<open>Invariants of the event loop\<close>

text \<open>
  While \<open>isLoading\<close> holds, exactly one of these is pending: the POST of
  \<open>handleSubmit\<close>, the timer it set, or the re-fetch the timer started; otherwise none.
\<close>

definition loading_inv :: "world \<Rightarrow> bool" where
  "loading_inv w \<longleftrightarrow>
     posting w + length (timers w) + refetching w = (if isLoading (ui w) then 1 else 0)"

text \<open>
  A submission after its POST has succeeded, with the timer due at \<open>due\<close> and \<open>base\<close>
  the re-fetches sent before: either the timer is pending and nothing more was sent, or
  the timer is gone, one re-fetch was sent at or after \<open>due\<close>, and \<open>isLoading\<close> holds
  exactly while that re-fetch is in flight.
\<close>

definition cycle :: "nat \<Rightarrow> (nat \<times> request \<times> kont) list \<Rightarrow> world \<Rightarrow> bool" where
  "cycle due base w \<longleftrightarrow>
     posting w = 0 \<and>
     (isLoading (ui w) \<and> timers w = [due] \<and> refetching w = 0 \<and> refetches (sent w) = base
      \<or> timers w = [] \<and> (refetching w = (if isLoading (ui w) then 1 else 0)) \<and>
         (\<exists>t. due \<le> t \<and> t \<le> clock w \<and>
            refetches (sent w) = base @ [(t, fetchLogs_request t, K_fetchLogs True)]))"

text \<open>The health probes among the requests sent and among the fetches in flight.\<close>

fun is_probe :: "kont \<Rightarrow> bool" where
  "is_probe (K_probe _ _) = True"
| "is_probe _ = False"

definition probes_sent :: "world \<Rightarrow> request list" where
  "probes_sent w = map (\<lambda>x. fst (snd x)) (filter (\<lambda>x. is_probe (snd (snd x))) (sent w))"

definition probing :: "world \<Rightarrow> (request \<times> kont) list" where
  "probing w = filter (\<lambda>x. is_probe (snd x)) (inflight w)"

text \<open>The probe of the \<open>k\<close>-th configured service, as the loop sends it.\<close>

definition probe_of :: "nat \<Rightarrow> request \<times> kont" where
  "probe_of k = (GET (snd (services ! k)), K_probe (fst (services ! k)) (drop (Suc k) services))"

definition probe_inv :: "world \<Rightarrow> bool" where
  "probe_inv w \<longleftrightarrow>
     (\<exists>k<length services.
        probes_sent w = map (\<lambda>s. GET (snd s)) (take (Suc k) services) \<and>
        (probing w = [probe_of k] \<or> probing w = [] \<and> Suc k = length services))"

subsection \<open>Three runs of the page\<close>

text \<open>The page is loaded at time 0, the user types \<open>hi\<close> and submits.\<close>

definition demo_submitted :: world where
  "demo_submitted = the (run [Typing (lit ''hi''), Submit] (initial_world 0))"

text \<open>Then the POST succeeds, eight seconds pass, the timer fires and its re-fetch
  brings an empty listing.\<close>

definition demo_refreshed :: world where
  "demo_refreshed =
     the (run [Settle 2 (Inr \<lparr>status = 200, json_body = Inr JNull\<rparr>), Tick 8000, Fire 0,
               Settle 2 (Inr \<lparr>status = 200, json_body = Inr (JArr [])\<rparr>)] demo_submitted)"

text \<open>The page is loaded at time 0 and the probe of the supervisor fails.\<close>

definition demo_probe_failed :: world where
  "demo_probe_failed =
     the (run [Settle 1 (Inl (Error (lit ''Failed to fetch'')))] (initial_world 0))"

section \<open>Properties\<close>

subsection \<open>The guard on the prompt\<close>

lemma trim_empty_iff: "trim s = [] \<longleftrightarrow> (\<forall>c\<in>set s. is_whitespace c)"
proof -
  have "trim s = [] \<longleftrightarrow> (\<forall>c\<in>set (dropWhile is_whitespace s). is_whitespace c)"
    by (simp add: trim_def)
  also have "\<dots> \<longleftrightarrow> dropWhile is_whitespace s = []"
  proof
    assume all: "\<forall>c\<in>set (dropWhile is_whitespace s). is_whitespace c"
    show "dropWhile is_whitespace s = []"
    proof (rule ccontr)
      assume ne: "dropWhile is_whitespace s \<noteq> []"
      then have "\<not> is_whitespace (hd (dropWhile is_whitespace s))"
        by (rule hd_dropWhile)
      moreover have "hd (dropWhile is_whitespace s) \<in> set (dropWhile is_whitespace s)"
        using ne by simp
      ultimately show False using all by blast
    qed
  qed (auto dest: set_dropWhileD)
  also have "\<dots> \<longleftrightarrow> (\<forall>c\<in>set s. is_whitespace c)"
    by simp
  finally show ?thesis .
qed

text \<open>
  C3: when every code unit of the prompt is whitespace (the empty prompt included),
  \<open>handleSubmit\<close> of either page sends no request, sets no timer and returns the state
  it was given, whatever the network would have answered.
\<close>

theorem blank_prompt_ignored:
  "((\<forall>c\<in>set (prompt stA). is_whitespace c) \<longrightarrow> handleSubmit_A outA stA = (stA, [], None))
   \<and> ((\<forall>c\<in>set (prompt stB). is_whitespace c) \<longrightarrow> handleSubmit_B outB stB = (stB, []))"
  by (simp add: handleSubmit_A_def handleSubmit_A_begin_def handleSubmit_B_def
      handleSubmit_B_begin_def trim_empty_iff)

theorem blank_prompt_ignored_witness:
  "is_whitespace 0x3000 \<and> is_whitespace 0x0020 \<and> is_whitespace 0x000A
   \<and> handleSubmit_A (Inr \<lparr>status = 200, json_body = Inr JNull\<rparr>)
         (Home_A\<lparr>prompt := [0x3000, 0x0020, 0x000A]\<rparr>)
       = (Home_A\<lparr>prompt := [0x3000, 0x0020, 0x000A]\<rparr>, [], None)
   \<and> handleSubmit_B (Inr \<lparr>status = 200, json_body = Inr JNull\<rparr>) Home_B = (Home_B, [])
   \<and> prompt Home_B = []"
proof -
  have ws: "is_whitespace 0x3000 \<and> is_whitespace 0x0020 \<and> is_whitespace 0x000A"
    by (simp add: is_whitespace_def)
  then have a: "\<forall>c\<in>set (prompt (Home_A\<lparr>prompt := [0x3000, 0x0020, 0x000A]\<rparr>)). is_whitespace c"
    by simp
  have b: "\<forall>c\<in>set (prompt Home_B). is_whitespace c" and e: "prompt Home_B = []"
    by (simp_all add: Home_B_def)
  show ?thesis
    using ws a b e
      blank_prompt_ignored [of "Home_A\<lparr>prompt := [0x3000, 0x0020, 0x000A]\<rparr>"
        "Inr \<lparr>status = 200, json_body = Inr JNull\<rparr>" Home_B
        "Inr \<lparr>status = 200, json_body = Inr JNull\<rparr>"]
    by blast
qed

subsection \<open>The single-response page\<close>

text \<open>
  C1: a submission of the single-response page (the prompt passes the guard) whose POST
  settles with a 2xx response and a body that parses stores exactly the parsed value in
  \<open>lastResponse\<close> and sets the prompt to the empty string; a string-to-string mapping
  is truthy, so \<open>ResponseViewer\<close> renders it.
\<close>

theorem supervisor_success_B:
  assumes "trim (prompt st) \<noteq> []" and "response_ok r" and "json_body r = Inr data"
  shows "handleSubmit_B (Inr r) st =
           (st\<lparr>isLoading := False, error := None, lastResponse := data, prompt := []\<rparr>,
            [POST SUPERVISOR_URL_B (JObj [(lit ''prompt'', JStr (prompt st))])])
       \<and> (AiOutputs data \<longrightarrow> ResponseViewer data = Some data)"
proof -
  have "AiOutputs data \<Longrightarrow> truthy data"
    by (cases data) simp_all
  then show ?thesis
    using assms
    by (simp add: handleSubmit_B_def handleSubmit_B_begin_def handleSubmit_B_resume_def
        handleSubmit_B_try_def ResponseViewer_def)
qed

theorem supervisor_success_B_witness:
  "trim (prompt (Home_B\<lparr>prompt := lit ''status report''\<rparr>)) \<noteq> []
   \<and> response_ok \<lparr>status = 200, json_body = Inr (JObj [(lit ''agent1'', JStr (lit ''done'')),
        (lit ''agent2'', JStr (lit ''pending''))])\<rparr>
   \<and> AiOutputs (JObj [(lit ''agent1'', JStr (lit ''done'')), (lit ''agent2'', JStr (lit ''pending''))])
   \<and> handleSubmit_B
         (Inr \<lparr>status = 200, json_body = Inr (JObj [(lit ''agent1'', JStr (lit ''done'')),
            (lit ''agent2'', JStr (lit ''pending''))])\<rparr>)
         (Home_B\<lparr>prompt := lit ''status report''\<rparr>)
       = (Home_B\<lparr>lastResponse := JObj [(lit ''agent1'', JStr (lit ''done'')),
            (lit ''agent2'', JStr (lit ''pending''))]\<rparr>,
          [POST SUPERVISOR_URL_B (JObj [(lit ''prompt'', JStr (lit ''status report''))])])
   \<and> ResponseViewer (JObj [(lit ''agent1'', JStr (lit ''done'')), (lit ''agent2'', JStr (lit ''pending''))])
       = Some (JObj [(lit ''agent1'', JStr (lit ''done'')), (lit ''agent2'', JStr (lit ''pending''))])"
proof -
  let ?data = "JObj [(lit ''agent1'', JStr (lit ''done'')), (lit ''agent2'', JStr (lit ''pending''))]"
  have p: "trim (prompt (Home_B\<lparr>prompt := lit ''status report''\<rparr>)) \<noteq> []"
    by (simp add: trim_def lit_def is_whitespace_def)
  have ok: "response_ok \<lparr>status = 200, json_body = Inr ?data\<rparr>"
    by (simp add: response_ok_def)
  have ai: "AiOutputs ?data"
    by simp
  have body: "json_body \<lparr>status = 200, json_body = Inr ?data\<rparr> = Inr ?data"
    by simp
  have st: "Home_B\<lparr>prompt := lit ''status report'', isLoading := False, error := None,
               lastResponse := ?data, prompt := []\<rparr>
            = Home_B\<lparr>lastResponse := ?data\<rparr>"
       "prompt (Home_B\<lparr>prompt := lit ''status report''\<rparr>) = lit ''status report''"
    by (simp_all add: Home_B_def)
  show ?thesis
    using p ok ai supervisor_success_B [OF p ok body, unfolded st]
    by blast
qed

lemma handleSubmit_B_not_ok:
  assumes "trim (prompt st) \<noteq> []" and "\<not> response_ok r"
  shows "handleSubmit_B (Inr r) st =
     (case handleSubmit_B_try (Inr r) (st\<lparr>isLoading := True, error := None, lastResponse := JNull\<rparr>) of
        Inl e \<Rightarrow> st\<lparr>isLoading := False, error := Some (catch_message (lit ''Failed to submit prompt'') e), lastResponse := JNull\<rparr>
      | Inr st1 \<Rightarrow> st1\<lparr>isLoading := False\<rparr>,
      [POST SUPERVISOR_URL_B (JObj [(lit ''prompt'', JStr (prompt st))])])"
  using assms
  by (simp add: handleSubmit_B_def handleSubmit_B_begin_def handleSubmit_B_resume_def Let_def
      split: sum.splits)

text \<open>
  C6, as the code has it: after a non-2xx response, the error message is the \<open>error\<close>
  property of the parsed body converted to a string, when the body is an object with a
  truthy \<open>error\<close> property whose conversion to a string succeeds (a string converts to
  itself); it is \<open>Request failed with status N\<close> when the body does not parse, when it
  is an object with no \<open>error\<close> property or a falsy one, and when it is any other value
  but \<open>null\<close>.
\<close>

theorem error_field_or_status_B:
  assumes "trim (prompt st) \<noteq> []" and "\<not> response_ok r"
  shows "(json_body r = Inr (JObj kvs) \<and> map_of kvs (lit ''error'') = Some v \<and> truthy v
            \<and> ToString v = Inr m \<longrightarrow>
          error (fst (handleSubmit_B (Inr r) st)) = Some m)
       \<and> (json_body r = Inr (JObj kvs) \<and> map_of kvs (lit ''error'') = Some (JStr s) \<and> s \<noteq> [] \<longrightarrow>
          error (fst (handleSubmit_B (Inr r) st)) = Some s)
       \<and> (json_body r = Inl e \<longrightarrow>
          error (fst (handleSubmit_B (Inr r) st)) = Some (request_failed (status r)))
       \<and> (json_body r = Inr (JObj kvs) \<and> map_of kvs (lit ''error'') = None \<longrightarrow>
          error (fst (handleSubmit_B (Inr r) st)) = Some (request_failed (status r)))
       \<and> (json_body r = Inr (JObj kvs) \<and> map_of kvs (lit ''error'') = Some v \<and> \<not> truthy v \<longrightarrow>
          error (fst (handleSubmit_B (Inr r) st)) = Some (request_failed (status r)))
       \<and> (json_body r = Inr j \<and> j \<noteq> JNull \<and> (\<forall>props. j \<noteq> JObj props) \<longrightarrow>
          error (fst (handleSubmit_B (Inr r) st)) = Some (request_failed (status r)))"
proof -
  have generic: "truthy (JStr (request_failed n))" for n
    by (simp add: request_failed_def lit_def)
  have other: "get_error j = Inr None" if "j \<noteq> JNull" and "\<forall>props. j \<noteq> JObj props" for j
    using that by (cases j) simp_all
  show ?thesis
    using assms generic other
    by (auto simp: handleSubmit_B_not_ok handleSubmit_B_try_def new_Error_def)
qed

theorem error_field_or_status_B_witness:
  "trim (prompt (Home_B\<lparr>prompt := lit ''hi''\<rparr>)) \<noteq> []
   \<and> \<not> response_ok \<lparr>status = 500, json_body = Inr (JObj [(lit ''error'', JStr (lit ''busy''))])\<rparr>
   \<and> map_of [(lit ''error'', JStr (lit ''busy''))] (lit ''error'') = Some (JStr (lit ''busy''))
   \<and> truthy (JStr (lit ''busy''))
   \<and> ToString (JStr (lit ''busy'')) = Inr (lit ''busy'')
   \<and> error (fst (handleSubmit_B
         (Inr \<lparr>status = 500, json_body = Inr (JObj [(lit ''error'', JStr (lit ''busy''))])\<rparr>)
         (Home_B\<lparr>prompt := lit ''hi''\<rparr>))) = Some (lit ''busy'')
   \<and> \<not> response_ok \<lparr>status = 502, json_body = Inl (Error (lit ''Unexpected token''))\<rparr>
   \<and> error (fst (handleSubmit_B
         (Inr \<lparr>status = 502, json_body = Inl (Error (lit ''Unexpected token''))\<rparr>)
         (Home_B\<lparr>prompt := lit ''hi''\<rparr>))) = Some (request_failed 502)"
proof -
  have p: "trim (prompt (Home_B\<lparr>prompt := lit ''hi''\<rparr>)) \<noteq> []"
    by (simp add: trim_def lit_def is_whitespace_def)
  have nok: "\<not> response_ok \<lparr>status = 500, json_body = Inr (JObj [(lit ''error'', JStr (lit ''busy''))])\<rparr>"
    by (simp add: response_ok_def)
  have nok2: "\<not> response_ok \<lparr>status = 502, json_body = Inl (Error (lit ''Unexpected token''))\<rparr>"
    by (simp add: response_ok_def)
  have field: "map_of [(lit ''error'', JStr (lit ''busy''))] (lit ''error'') = Some (JStr (lit ''busy''))"
    by simp
  have tr: "truthy (JStr (lit ''busy''))"
    by (simp add: lit_def)
  have conv: "ToString (JStr (lit ''busy'')) = Inr (lit ''busy'')"
    by simp
  have shown: "error (fst (handleSubmit_B
         (Inr \<lparr>status = 500, json_body = Inr (JObj [(lit ''error'', JStr (lit ''busy''))])\<rparr>)
         (Home_B\<lparr>prompt := lit ''hi''\<rparr>))) = Some (lit ''busy'')"
    using field tr conv
      error_field_or_status_B [OF p nok, of "[(lit ''error'', JStr (lit ''busy''))]"
        "JStr (lit ''busy'')" "lit ''busy''" "[]" Thrown_other JNull]
    by simp
  have fallback: "error (fst (handleSubmit_B
         (Inr \<lparr>status = 502, json_body = Inl (Error (lit ''Unexpected token''))\<rparr>)
         (Home_B\<lparr>prompt := lit ''hi''\<rparr>))) = Some (request_failed 502)"
    using error_field_or_status_B [OF p nok2, of "[]" JNull "[]" "[]"
        "Error (lit ''Unexpected token'')" JNull]
    by simp
  show ?thesis
    by (intro conjI) (rule p nok field tr conv shown nok2 fallback)+
qed

text \<open>
  C6 as stated fails: the body \<open>{"error": ""}\<close> parses and contains an \<open>error\<close> field,
  yet the message is the generic one, not the field's value.
\<close>

theorem empty_error_field_counterexample:
  "map_of [(lit ''error'', JStr [])] (lit ''error'') = Some (JStr [])
   \<and> ToString (JStr []) = Inr []
   \<and> error (fst (handleSubmit_B
         (Inr \<lparr>status = 500, json_body = Inr (JObj [(lit ''error'', JStr [])])\<rparr>)
         (Home_B\<lparr>prompt := lit ''hi''\<rparr>))) = Some (lit ''Request failed with status 500'')
   \<and> lit ''Request failed with status 500'' \<noteq> []"
  by (simp add: handleSubmit_B_def handleSubmit_B_begin_def handleSubmit_B_resume_def
      handleSubmit_B_try_def new_Error_def request_failed_def response_ok_def
      trim_def lit_def is_whitespace_def Home_B_def)

text \<open>
  Two bodies on which a \<open>TypeError\<close> is thrown inside the \<open>try\<close> and the message shown is
  the engine's: on \<open>null\<close> the read of \<open>.error\<close> throws, and on an \<open>error\<close> field that
  is an object with an own \<open>toString\<close> property (alone or inside an array) the
  conversion in \<open>new Error\<close> throws.
\<close>

lemma null_body_message_B:
  "error (fst (handleSubmit_B (Inr \<lparr>status = 500, json_body = Inr JNull\<rparr>)
      (Home_B\<lparr>prompt := lit ''hi''\<rparr>))) = Some null_read_message"
  by (simp add: handleSubmit_B_def handleSubmit_B_begin_def handleSubmit_B_resume_def
      handleSubmit_B_try_def response_ok_def trim_def lit_def is_whitespace_def Home_B_def)

lemma unconvertible_error_message_B:
  "error (fst (handleSubmit_B
      (Inr \<lparr>status = 500,
             json_body = Inr (JObj [(lit ''error'', JObj [(lit ''toString'', JNum (lit ''1''))])])\<rparr>)
      (Home_B\<lparr>prompt := lit ''hi''\<rparr>))) = Some cannot_convert_message"
    and "error (fst (handleSubmit_B
      (Inr \<lparr>status = 500,
             json_body = Inr (JObj [(lit ''error'',
               JArr [JStr (lit ''a''), JObj [(lit ''toString'', JNum (lit ''1''))]])])\<rparr>)
      (Home_B\<lparr>prompt := lit ''hi''\<rparr>))) = Some cannot_convert_message"
  by (simp_all add: handleSubmit_B_def handleSubmit_B_begin_def handleSubmit_B_resume_def
      handleSubmit_B_try_def new_Error_def response_ok_def trim_def lit_def is_whitespace_def
      Home_B_def)

lemma ToString_object:
  "ToString (JObj kvs) = Inr (lit ''[object Object]'') \<longleftrightarrow> map_of kvs (lit ''toString'') = None"
  by simp

text \<open>
  C4: a failed submission is to leave a visible error message and \<open>isLoading = false\<close>.
  On the single-response page, the prompt \<open>hi\<close> is posted and answered with status 500
  and the body \<open>{"error": []}\<close>: the empty array is truthy and prints as the empty
  string, so the error is set to the empty string, for which the banner renders
  nothing; \<open>isLoading\<close> does return to false.
\<close>

theorem empty_array_error_hidden_B:
  "\<not> response_ok \<lparr>status = 500, json_body = Inr (JObj [(lit ''error'', JArr [])])\<rparr>
   \<and> snd (handleSubmit_B
       (Inr \<lparr>status = 500, json_body = Inr (JObj [(lit ''error'', JArr [])])\<rparr>)
       (Home_B\<lparr>prompt := lit ''hi''\<rparr>))
       = [POST SUPERVISOR_URL_B (JObj [(lit ''prompt'', JStr (lit ''hi''))])]
   \<and> error (fst (handleSubmit_B
       (Inr \<lparr>status = 500, json_body = Inr (JObj [(lit ''error'', JArr [])])\<rparr>)
       (Home_B\<lparr>prompt := lit ''hi''\<rparr>))) = Some []
   \<and> error_banner (fst (handleSubmit_B
       (Inr \<lparr>status = 500, json_body = Inr (JObj [(lit ''error'', JArr [])])\<rparr>)
       (Home_B\<lparr>prompt := lit ''hi''\<rparr>))) = None
   \<and> isLoading (fst (handleSubmit_B
       (Inr \<lparr>status = 500, json_body = Inr (JObj [(lit ''error'', JArr [])])\<rparr>)
       (Home_B\<lparr>prompt := lit ''hi''\<rparr>))) = False"
  by (simp add: handleSubmit_B_def handleSubmit_B_begin_def handleSubmit_B_resume_def
      handleSubmit_B_try_def new_Error_def response_ok_def error_banner_def
      trim_def lit_def is_whitespace_def Home_B_def)

text \<open>What does hold after a failed submission, on each page.\<close>

lemma failed_submission_A:
  assumes "trim (prompt st) \<noteq> []"
  shows "\<not> response_ok r \<Longrightarrow>
           fst (handleSubmit_A (Inr r) st)
             = st\<lparr>isLoading := False, error := Some (supervisor_failed (status r))\<rparr>"
    and "fst (handleSubmit_A (Inl e) st)
             = st\<lparr>isLoading := False, error := Some (catch_message (lit ''Failed to submit prompt'') e)\<rparr>"
  using assms
  by (simp_all add: handleSubmit_A_def handleSubmit_A_begin_def handleSubmit_A_resume_def
      handleSubmit_A_try_def)

lemma supervisor_failed_visible: "supervisor_failed n \<noteq> []"
  by (simp add: supervisor_failed_def lit_def)

lemma failed_submission_B:
  assumes "trim (prompt st) \<noteq> []" and "out = Inl e \<or> (\<exists>r. out = Inr r \<and> \<not> response_ok r)"
  shows "isLoading (fst (handleSubmit_B out st)) = False
       \<and> error (fst (handleSubmit_B out st)) \<noteq> None"
  using assms
  by (auto simp add: handleSubmit_B_def handleSubmit_B_begin_def handleSubmit_B_resume_def
      handleSubmit_B_try_def Let_def split: sum.splits)

subsection \<open>The log-oriented page\<close>



text \<open>
  C9: clicking the button of a log item twice renders the item as before, and neither
  click sends a request.
\<close>

theorem toggle_twice:
  "LogItem log (fst (LogItem_onClick (fst (LogItem_onClick isExpanded)))) = LogItem log isExpanded
   \<and> snd (LogItem_onClick isExpanded) = []
   \<and> snd (LogItem_onClick (fst (LogItem_onClick isExpanded))) = []"
  by (simp add: LogItem_onClick_def)

text \<open>
  C10: on the log-oriented page the prompt after \<open>handleSubmit\<close> is the prompt before
  it, for every way the POST settles and for the guard's early return; the timer's
  callback keeps it too.
\<close>

theorem prompt_kept_A:
  "prompt (fst (handleSubmit_A out st)) = prompt st
   \<and> prompt (timer_callback_resume out' st) = prompt st"
  by (simp add: handleSubmit_A_def handleSubmit_A_begin_def handleSubmit_A_resume_def
      timer_callback_resume_def fetchLogs_resume_def fetchLogs_try_def
      split: sum.splits)

subsection \<open>The health probes\<close>

lemma loop_statuses:
  "statuses (fst (checkServiceStatus_loop svcs env st)) name =
     (case map_of (rev svcs) name of
        None \<Rightarrow> statuses st name
      | Some url \<Rightarrow> Some (probe_status (env url)))"
proof (induction svcs arbitrary: st)
  case Nil
  then show ?case by simp
next
  case (Cons s svcs)
  obtain n u where s: "s = (n, u)" by (cases s)
  show ?case
    by (simp add: s Cons.IH split_beta probe_resume_def map_add_def split: option.splits)
qed

lemma loop_requests:
  "snd (checkServiceStatus_loop svcs env st) = map (\<lambda>s. GET (snd s)) svcs"
  by (induction svcs arbitrary: st) (auto simp: split_beta)

lemma loop_others:
  "logs (fst (checkServiceStatus_loop svcs env st)) = logs st"
  by (induction svcs arbitrary: st) (auto simp: split_beta probe_resume_def)

lemma services_names: "map fst services = [lit ''supervisor'', lit ''orchestrator'', lit ''monitor'']"
  by (simp add: services_def)

lemma distinct_names: "distinct (map fst services)"
  by (simp add: services_names lit_def)

lemma services_lookup:
  "(name, url) \<in> set services \<Longrightarrow> map_of (rev services) name = Some url"
proof -
  have "distinct (rev (map fst services))"
    by (simp add: distinct_names)
  then have "distinct (map fst (rev services))"
    by (simp only: rev_map)
  then show "(name, url) \<in> set services \<Longrightarrow> map_of (rev services) name = Some url"
    by simp
qed

text \<open>
  C5: after \<open>checkServiceStatus\<close> has run, the status of every configured service is
  \<open>ok\<close> when its own probe settled with a 2xx response and \<open>error\<close> when it settled
  otherwise or failed; one GET was sent per configured URL; no status is \<open>loading\<close>;
  and the status of a service is the same under any two environments that agree on
  that service's probe.
\<close>

theorem probes_settle:
  "(\<forall>(name, url) \<in> set services.
       statuses (fst (checkServiceStatus_A env st)) name = Some (probe_status (env url)))
   \<and> (\<forall>(name, url) \<in> set services. \<forall>env'. env' url = env url \<longrightarrow>
         statuses (fst (checkServiceStatus_A env' st)) name
           = statuses (fst (checkServiceStatus_A env st)) name)
   \<and> snd (checkServiceStatus_A env st) = map (\<lambda>s. GET (snd s)) services
   \<and> (statuses st = statuses Home_A \<longrightarrow>
        Some Status_loading \<notin> range (statuses (fst (checkServiceStatus_A env st))))
   \<and> statuses (checkServiceStatus_B out stB) = [lit ''supervisor'' \<mapsto> probe_status out]
   \<and> Some Status_loading \<notin> range (statuses (checkServiceStatus_B out stB))
   \<and> (\<forall>r. probe_status (Inr r) = (if response_ok r then Status_ok else Status_error))
   \<and> (\<forall>e. probe_status (Inl e) = Status_error)"
proof -
  have a: "\<forall>(name, url) \<in> set services.
       statuses (fst (checkServiceStatus_A env st)) name = Some (probe_status (env url))"
    by (auto simp: checkServiceStatus_A_def loop_statuses services_lookup)
  have ps: "probe_status x \<noteq> Status_loading" for x
    by (cases x) auto
  have b: "Some Status_loading \<notin> range (statuses (fst (checkServiceStatus_A env st)))"
    if init: "statuses st = statuses Home_A"
  proof
    assume "Some Status_loading \<in> range (statuses (fst (checkServiceStatus_A env st)))"
    then obtain name where n: "statuses (fst (checkServiceStatus_A env st)) name = Some Status_loading"
      by (metis rangeE)
    show False
    proof (cases "map_of (rev services) name")
      case None
      then have "name \<notin> fst ` set services"
        by (simp add: map_of_eq_None_iff)
      then have "statuses Home_A name = None"
        by (simp add: Home_A_def services_def)
      with n None init show False
        by (simp add: checkServiceStatus_A_def loop_statuses)
    next
      case (Some url)
      with n show False
        by (simp add: checkServiceStatus_A_def loop_statuses ps)
    qed
  qed
  have c: "Some Status_loading \<notin> range (statuses (checkServiceStatus_B out stB))"
    using ps [of out] by (auto simp: checkServiceStatus_B_def split: if_splits)
  have d: "\<forall>(name, url) \<in> set services. \<forall>env'. env' url = env url \<longrightarrow>
         statuses (fst (checkServiceStatus_A env' st)) name
           = statuses (fst (checkServiceStatus_A env st)) name"
    by (auto simp: checkServiceStatus_A_def loop_statuses services_lookup)
  show ?thesis
    using a b c d by (simp add: checkServiceStatus_A_def loop_requests checkServiceStatus_B_def)
qed

theorem probes_settle_witness:
  "(lit ''supervisor'', lit ''https://supervisor-service-497428235894.asia-northeast1.run.app/health'')
       \<in> set services
   \<and> (lit ''orchestrator'', lit ''https://orchestrator-service-497428235894.asia-northeast1.run.app/health'')
       \<in> set services
   \<and> statuses (fst (checkServiceStatus_A
         (\<lambda>url. if url = lit ''https://supervisor-service-497428235894.asia-northeast1.run.app/health''
                then Inr \<lparr>status = 200, json_body = Inr JNull\<rparr>
                else Inl (Error (lit ''Failed to fetch'')))
         Home_A)) (lit ''supervisor'') = Some Status_ok
   \<and> statuses (fst (checkServiceStatus_A
         (\<lambda>url. if url = lit ''https://supervisor-service-497428235894.asia-northeast1.run.app/health''
                then Inr \<lparr>status = 200, json_body = Inr JNull\<rparr>
                else Inl (Error (lit ''Failed to fetch'')))
         Home_A)) (lit ''orchestrator'') = Some Status_error
   \<and> Some Status_loading \<notin> range (statuses (fst (checkServiceStatus_A
         (\<lambda>url. if url = lit ''https://supervisor-service-497428235894.asia-northeast1.run.app/health''
                then Inr \<lparr>status = 200, json_body = Inr JNull\<rparr>
                else Inl (Error (lit ''Failed to fetch'')))
         Home_A)))"
proof -
  have sup: "(lit ''supervisor'', lit ''https://supervisor-service-497428235894.asia-northeast1.run.app/health'')
       \<in> set services"
    by (simp add: services_def)
  have orc: "(lit ''orchestrator'', lit ''https://orchestrator-service-497428235894.asia-northeast1.run.app/health'')
       \<in> set services"
    by (simp add: services_def)
  have ne: "lit ''https://orchestrator-service-497428235894.asia-northeast1.run.app/health''
      \<noteq> lit ''https://supervisor-service-497428235894.asia-northeast1.run.app/health''"
    by (simp add: lit_def)
  let ?env = "\<lambda>url. if url = lit ''https://supervisor-service-497428235894.asia-northeast1.run.app/health''
                then Inr \<lparr>status = 200, json_body = Inr JNull\<rparr>
                else Inl (Error (lit ''Failed to fetch''))"
  note settled = probes_settle [of ?env Home_A "Inl Thrown_other" Home_B]
  from settled have each: "\<forall>(name, url) \<in> set services.
       statuses (fst (checkServiceStatus_A ?env Home_A)) name = Some (probe_status (?env url))"
    by (rule conjunct1)
  have s1: "statuses (fst (checkServiceStatus_A ?env Home_A)) (lit ''supervisor'') = Some Status_ok"
    using bspec [OF each sup] by (simp add: response_ok_def)
  have s2: "statuses (fst (checkServiceStatus_A ?env Home_A)) (lit ''orchestrator'') = Some Status_error"
    using bspec [OF each orc] ne by simp
  from settled have s3: "Some Status_loading \<notin> range (statuses (fst (checkServiceStatus_A ?env Home_A)))"
    by simp
  show ?thesis
    using sup orc s1 s2 s3 by blast
qed

subsection \<open>The event loop: what is pending while the form is disabled\<close>

lemma filter_remove_nth:
  "i < length xs \<Longrightarrow>
     length (filter P xs) = length (filter P (remove_nth i xs)) + (if P (xs ! i) then 1 else 0)"
proof -
  assume "i < length xs"
  then have "xs = take i xs @ xs ! i # drop (Suc i) xs"
    by (rule id_take_nth_drop)
  then have "filter P xs = filter P (take i xs) @ filter P (xs ! i # drop (Suc i) xs)"
    by (metis filter_append)
  then show ?thesis
    by (simp add: remove_nth_def)
qed

lemma length_remove_nth: "i < length xs \<Longrightarrow> length xs = Suc (length (remove_nth i xs))"
  by (auto simp: remove_nth_def)

lemma issue_simps [simp]:
  "ui (issue req k w) = ui w"
  "clock (issue req k w) = clock w"
  "timers (issue req k w) = timers w"
  "posting (issue req k w) = posting w + (if k = K_submit then 1 else 0)"
  "refetching (issue req k w) = refetching w + (if k = K_fetchLogs True then 1 else 0)"
  "refetches (sent (issue req k w)) =
     refetches (sent w) @ (if k = K_fetchLogs True then [(clock w, req, k)] else [])"
  by (simp_all add: issue_def posting_def refetching_def refetches_def)

lemma next_simps [simp]:
  "ui (checkServiceStatus_next svcs w) = ui w"
  "clock (checkServiceStatus_next svcs w) = clock w"
  "timers (checkServiceStatus_next svcs w) = timers w"
  "posting (checkServiceStatus_next svcs w) = posting w"
  "refetching (checkServiceStatus_next svcs w) = refetching w"
  "refetches (sent (checkServiceStatus_next svcs w)) = refetches (sent w)"
  by (cases svcs; cases "hd svcs"; simp)+

lemma update_simps [simp]:
  "posting (w\<lparr>ui := st\<rparr>) = posting w"
  "refetching (w\<lparr>ui := st\<rparr>) = refetching w"
  "posting (w\<lparr>timers := ts\<rparr>) = posting w"
  "refetching (w\<lparr>timers := ts\<rparr>) = refetching w"
  "posting (w\<lparr>clock := c\<rparr>) = posting w"
  "refetching (w\<lparr>clock := c\<rparr>) = refetching w"
  by (simp_all add: posting_def refetching_def)

lemma fetchLogs_resume_isLoading [simp]: "isLoading (fetchLogs_resume out st) = isLoading st"
  by (simp add: fetchLogs_resume_def fetchLogs_try_def split: sum.splits)

lemma probe_resume_isLoading [simp]: "isLoading (probe_resume name out st) = isLoading st"
  by (simp add: probe_resume_def)

lemma handleSubmit_A_resume_cases:
  "handleSubmit_A_resume out st =
     (if (\<exists>r. out = Inr r \<and> response_ok r) then (st, Some 8000)
      else (st\<lparr>error := Some (catch_message (lit ''Failed to submit prompt'')
                 (case out of Inl e \<Rightarrow> e | Inr r \<Rightarrow> Error (supervisor_failed (status r)))),
               isLoading := False\<rparr>, None))"
  by (auto simp: handleSubmit_A_resume_def handleSubmit_A_try_def split: sum.splits)

lemma loading_inv_step:
  assumes "loading_inv w" and "step e w = Some w'"
  shows "loading_inv w'"
proof (cases e)
  case (Tick d)
  with assms show ?thesis by (auto simp: loading_inv_def)
next
  case (Settle i out)
  with assms have i: "i < length (inflight w)"
    and w': "w' = resume (snd (inflight w ! i)) out (w\<lparr>inflight := remove_nth i (inflight w)\<rparr>)"
    by (auto split: if_splits)
  let ?w = "w\<lparr>inflight := remove_nth i (inflight w)\<rparr>"
  have p: "posting w = posting ?w + (if snd (inflight w ! i) = K_submit then 1 else 0)"
    using filter_remove_nth [OF i] by (simp add: posting_def)
  have r: "refetching w = refetching ?w + (if snd (inflight w ! i) = K_fetchLogs True then 1 else 0)"
    using filter_remove_nth [OF i] by (simp add: refetching_def)
  show ?thesis
  proof (cases "snd (inflight w ! i)")
    case K_submit
    with assms(1) p r w' show ?thesis
      by (auto simp: loading_inv_def handleSubmit_A_resume_cases split: if_splits)
  next
    case (K_fetchLogs b)
    with assms(1) p r w' show ?thesis
      by (auto simp: loading_inv_def timer_callback_resume_def split: if_splits)
  next
    case (K_probe name rest)
    with assms(1) p r w' show ?thesis
      by (auto simp: loading_inv_def split: if_splits)
  qed
next
  case (Fire i)
  with assms have i: "i < length (timers w)"
    and w': "w' = issue (fetchLogs_request (clock w)) (K_fetchLogs True) (w\<lparr>timers := remove_nth i (timers w)\<rparr>)"
    by (auto split: if_splits)
  from assms(1) w' length_remove_nth [OF i] show ?thesis
    by (auto simp: loading_inv_def split: if_splits)
next
  case Submit
  with assms show ?thesis
    by (auto simp: loading_inv_def handleSubmit_A_begin_def split: if_splits)
next
  case (Typing s)
  with assms show ?thesis
    by (auto simp: loading_inv_def split: if_splits)
next
  case Refresh
  with assms show ?thesis
    by (auto simp: loading_inv_def split: if_splits)
qed

lemma loading_inv_initial: "loading_inv (initial_world t0)"
proof -
  let ?w0 = "\<lparr>ui = Home_A, clock = t0, inflight = [], timers = [], sent = []\<rparr>"
  have "posting ?w0 = 0" and "refetching ?w0 = 0" and "\<not> isLoading (ui ?w0)"
    by (simp_all add: posting_def refetching_def Home_A_def)
  then show ?thesis
    by (simp add: loading_inv_def initial_world_def mount_def)
qed

lemma loading_inv_run:
  "loading_inv w \<Longrightarrow> run es w = Some w' \<Longrightarrow> loading_inv w'"
  by (induction es arbitrary: w) (auto split: option.splits intro: loading_inv_step)

lemma remove_nth_single: "remove_nth 0 [x] = []"
  by (simp add: remove_nth_def)

lemma cycle_step:
  assumes "cycle due base w" and "step e w = Some w'" and "e \<noteq> Submit"
  shows "cycle due base w'"
proof (cases e)
  case (Tick d)
  with assms show ?thesis by (fastforce simp: cycle_def)
next
  case (Settle i out)
  with assms have i: "i < length (inflight w)"
    and w': "w' = resume (snd (inflight w ! i)) out (w\<lparr>inflight := remove_nth i (inflight w)\<rparr>)"
    by (auto split: if_splits)
  let ?w = "w\<lparr>inflight := remove_nth i (inflight w)\<rparr>"
  have p: "posting w = posting ?w + (if snd (inflight w ! i) = K_submit then 1 else 0)"
    using filter_remove_nth [OF i] by (simp add: posting_def)
  have r: "refetching w = refetching ?w + (if snd (inflight w ! i) = K_fetchLogs True then 1 else 0)"
    using filter_remove_nth [OF i] by (simp add: refetching_def)
  show ?thesis
  proof (cases "snd (inflight w ! i)")
    case K_submit
    with assms(1) p show ?thesis
      by (simp add: cycle_def)
  next
    case (K_fetchLogs b)
    with assms(1) p r w' show ?thesis
      by (auto simp: cycle_def timer_callback_resume_def split: if_splits)
  next
    case (K_probe name rest)
    with assms(1) p r w' show ?thesis
      by (auto simp: cycle_def split: if_splits)
  qed
next
  case (Fire i)
  with assms have i: "i < length (timers w)" and due: "timers w ! i \<le> clock w"
    and w': "w' = issue (fetchLogs_request (clock w)) (K_fetchLogs True) (w\<lparr>timers := remove_nth i (timers w)\<rparr>)"
    by (auto split: if_splits)
  from assms(1) i have t: "timers w = [due]" and l: "isLoading (ui w)" and z: "refetching w = 0"
    and b: "refetches (sent w) = base" and p: "posting w = 0"
    by (auto simp: cycle_def)
  from t i due have "i = 0" and "due \<le> clock w" by auto
  with t l z b p w' show ?thesis
    by (simp add: cycle_def remove_nth_single)
next
  case Submit
  with assms show ?thesis by simp
next
  case (Typing s)
  with assms show ?thesis
    by (auto simp: cycle_def split: if_splits)
next
  case Refresh
  with assms show ?thesis
    by (auto simp: cycle_def split: if_splits)
qed

lemma cycle_run:
  "cycle due base w \<Longrightarrow> run es w = Some w' \<Longrightarrow> Submit \<notin> set es \<Longrightarrow> cycle due base w'"
  by (induction es arbitrary: w) (auto split: option.splits intro: cycle_step)

lemma cycle_start:
  assumes "loading_inv w" and "i < length (inflight w)" and "snd (inflight w ! i) = K_submit"
    and "response_ok r"
  shows "step (Settle i (Inr r)) w
           = Some (w\<lparr>inflight := remove_nth i (inflight w), timers := [clock w + 8000]\<rparr>)"
    and "cycle (clock w + 8000) (refetches (sent w))
           (w\<lparr>inflight := remove_nth i (inflight w), timers := [clock w + 8000]\<rparr>)"
    and "isLoading (ui w)"
proof -
  let ?w = "w\<lparr>inflight := remove_nth i (inflight w)\<rparr>"
  have p: "posting w = posting ?w + 1"
    using filter_remove_nth [OF assms(2), of "\<lambda>x. snd x = K_submit"] assms(3)
    by (simp add: posting_def)
  with assms(1) have l: "isLoading (ui w)" and t: "timers w = []" and z: "refetching w = 0"
    and pz: "posting ?w = 0"
    by (auto simp: loading_inv_def split: if_splits)
  have rz: "refetching ?w = 0"
    using filter_remove_nth [OF assms(2), of "\<lambda>x. snd x = K_fetchLogs True"] z
    by (simp add: refetching_def)
  show "isLoading (ui w)" by (rule l)
  show "step (Settle i (Inr r)) w
           = Some (w\<lparr>inflight := remove_nth i (inflight w), timers := [clock w + 8000]\<rparr>)"
    using assms t by (simp add: handleSubmit_A_resume_cases)
  have "posting (?w\<lparr>timers := [clock w + 8000]\<rparr>) = 0"
    and "refetching (?w\<lparr>timers := [clock w + 8000]\<rparr>) = 0"
    using pz rz by simp_all
  with l show "cycle (clock w + 8000) (refetches (sent w))
           (w\<lparr>inflight := remove_nth i (inflight w), timers := [clock w + 8000]\<rparr>)"
    by (simp add: cycle_def)
qed

text \<open>On the event loop too, only typing changes the prompt.\<close>

lemma prompt_resume: "prompt (ui (resume k out w)) = prompt (ui w)"
  by (cases k)
     (simp_all add: handleSubmit_A_resume_cases timer_callback_resume_def fetchLogs_resume_def
        fetchLogs_try_def probe_resume_def split: sum.splits)

lemma prompt_only_typed:
  assumes "step e w = Some w'" and "\<forall>s. e \<noteq> Typing s"
  shows "prompt (ui w') = prompt (ui w)"
  using assms
  by (cases e) (auto simp: prompt_resume handleSubmit_A_begin_def split: if_splits)

text \<open>The list of requests sent only grows, and only the refresh button adds a request
  of \<open>fetchLogs\<close> that the timer did not start.\<close>

lemma sent_issue [simp]: "sent (issue req k w) = sent w @ [(clock w, req, k)]"
  by (simp add: issue_def)

lemma sent_next:
  "\<exists>added. sent (checkServiceStatus_next svcs w) = sent w @ added \<and> manual_fetches added = []"
proof (cases svcs)
  case Nil
  then show ?thesis by (simp add: manual_fetches_def)
next
  case (Cons s rest)
  obtain n u where "s = (n, u)" by (cases s)
  with Cons show ?thesis by (simp add: manual_fetches_def)
qed

lemma sent_resume:
  "\<exists>added. sent (resume k out w) = sent w @ added \<and> manual_fetches added = []"
proof (cases k)
  case K_submit
  then show ?thesis
    by (simp add: handleSubmit_A_resume_cases manual_fetches_def)
next
  case (K_fetchLogs b)
  then show ?thesis by (simp add: manual_fetches_def)
next
  case (K_probe name rest)
  with sent_next [of rest "w\<lparr>ui := probe_resume name out (ui w)\<rparr>"] show ?thesis
    by simp
qed

lemma sent_step:
  assumes "step e w = Some w'"
  shows "\<exists>added. sent w' = sent w @ added \<and> (e \<noteq> Refresh \<longrightarrow> manual_fetches added = [])"
proof (cases e)
  case (Tick d)
  with assms show ?thesis by (auto simp: manual_fetches_def)
next
  case (Settle i out)
  with assms have "w' = resume (snd (inflight w ! i)) out (w\<lparr>inflight := remove_nth i (inflight w)\<rparr>)"
    by (auto split: if_splits)
  with sent_resume [of "snd (inflight w ! i)" out "w\<lparr>inflight := remove_nth i (inflight w)\<rparr>"]
  show ?thesis by auto
next
  case (Fire i)
  with assms have "w' = issue (fetchLogs_request (clock w)) (K_fetchLogs True) (w\<lparr>timers := remove_nth i (timers w)\<rparr>)"
    by (auto split: if_splits)
  then show ?thesis by (simp add: manual_fetches_def)
next
  case Submit
  with assms have "w' = w \<or> w' = issue (POST SUPERVISOR_URL_A (JObj [(lit ''prompt'', JStr (prompt (ui w)))])) K_submit
      (w\<lparr>ui := (ui w)\<lparr>isLoading := True, error := None\<rparr>\<rparr>)"
    by (auto simp: handleSubmit_A_begin_def split: if_splits)
  then show ?thesis
    by (auto simp: manual_fetches_def)
next
  case (Typing s)
  with assms show ?thesis by (auto simp: manual_fetches_def split: if_splits)
next
  case Refresh
  with assms show ?thesis by auto
qed

lemma sent_run:
  "run es w = Some w' \<Longrightarrow>
     \<exists>added. sent w' = sent w @ added \<and> (Refresh \<notin> set es \<longrightarrow> manual_fetches added = [])"
proof (induction es arbitrary: w)
  case Nil
  then show ?case by (simp add: manual_fetches_def)
next
  case (Cons e es)
  then obtain w1 where s: "step e w = Some w1" and r: "run es w1 = Some w'"
    by (auto split: option.splits)
  from sent_step [OF s] obtain a1 where a1: "sent w1 = sent w @ a1"
    "e \<noteq> Refresh \<longrightarrow> manual_fetches a1 = []" by blast
  from Cons.IH [OF r] obtain a2 where a2: "sent w' = sent w1 @ a2"
    "Refresh \<notin> set es \<longrightarrow> manual_fetches a2 = []" by blast
  have "sent w' = sent w @ (a1 @ a2)"
    using a1(1) a2(1) by simp
  moreover have "Refresh \<notin> set (e # es) \<longrightarrow> manual_fetches (a1 @ a2) = []"
    using a1(2) a2(2) by (auto simp: manual_fetches_def)
  ultimately show ?case by blast
qed

lemma log_fetches_flow:
  "manual_fetches xs = [] \<Longrightarrow> log_fetches xs = refetches xs"
proof -
  assume "manual_fetches xs = []"
  then have none: "\<forall>x\<in>set xs. snd (snd x) \<noteq> K_fetchLogs False"
    by (simp add: manual_fetches_def filter_empty_conv)
  have "is_fetchLogs k \<longleftrightarrow> k = K_fetchLogs True" if "k \<noteq> K_fetchLogs False" for k
    using that by (cases k) auto
  with none show ?thesis
    unfolding log_fetches_def refetches_def by (intro filter_cong) auto
qed

text \<open>Facts about the three runs.\<close>

lemma hi_not_blank: "trim (lit ''hi'') \<noteq> []"
  by (simp add: trim_def lit_def is_whitespace_def)

lemma demo_submitted_eq:
  "run [Typing (lit ''hi''), Submit] (initial_world 0) = Some demo_submitted"
  by (simp add: demo_submitted_def initial_world_def mount_def services_def Home_A_def
      handleSubmit_A_begin_def hi_not_blank)

lemma demo_submitted_inflight:
  "map snd (inflight demo_submitted) =
     [K_fetchLogs False, K_probe (lit ''supervisor'') (tl services), K_submit]"
  by (simp add: demo_submitted_def initial_world_def mount_def services_def Home_A_def
      handleSubmit_A_begin_def hi_not_blank issue_def)

lemma demo_refreshed_eq:
  "run [Settle 2 (Inr \<lparr>status = 200, json_body = Inr JNull\<rparr>), Tick 8000, Fire 0,
        Settle 2 (Inr \<lparr>status = 200, json_body = Inr (JArr [])\<rparr>)] demo_submitted
     = Some demo_refreshed"
  by (simp add: demo_refreshed_def demo_submitted_def initial_world_def mount_def services_def
      Home_A_def handleSubmit_A_begin_def hi_not_blank issue_def remove_nth_def
      handleSubmit_A_resume_def handleSubmit_A_try_def response_ok_def)

lemma demo_refreshed_facts:
  "map fst (refetches (sent demo_refreshed)) = [8000]"
  "refetches (sent demo_submitted) = []"
  "isLoading (ui demo_submitted)"
  "\<not> isLoading (ui demo_refreshed)"
  "logs (ui demo_refreshed) = JArr []"
  "clock demo_submitted = 0"
  by (simp_all add: demo_refreshed_def demo_submitted_def initial_world_def mount_def
      services_def Home_A_def handleSubmit_A_begin_def hi_not_blank issue_def remove_nth_def
      handleSubmit_A_resume_def handleSubmit_A_try_def response_ok_def refetches_def
      timer_callback_resume_def fetchLogs_resume_def fetchLogs_try_def)

text \<open>
  C2: take any run of the log-oriented page from its load, and a turn in which the POST of
  \<open>handleSubmit\<close> settles with a 2xx response at time \<open>clock w\<close>. However the run goes on
  (time passing, fetches settling, the timer firing, the user typing or pressing
  refresh) until the user next submits, the submission flow has sent at most one
  re-fetch of the log feed since, that re-fetch is \<open>fetchLogs\<close>'s request and was sent
  no earlier than \<open>clock w + 8000\<close>; if the refresh button was not pressed it is the only
  request of \<open>fetchLogs\<close> sent since. Until it is sent \<open>isLoading\<close> holds and the timer is
  pending with that due time, and from the due time on the timer can fire and sends it;
  once it is sent, \<open>isLoading\<close> holds exactly while it is in flight. So the input is
  enabled again only when the one re-fetch has been sent and has settled.
\<close>

theorem refetch_after_delay:
  assumes "run es0 (initial_world t0) = Some w"
    and "i < length (inflight w)" and "snd (inflight w ! i) = K_submit"
    and "response_ok r"
    and "run (Settle i (Inr r) # es) w = Some w'" and "Submit \<notin> set es"
  shows "\<exists>added. sent w' = sent w @ added
           \<and> length (refetches added) \<le> 1
           \<and> (\<forall>x\<in>set (refetches added). clock w + 8000 \<le> fst x \<and> fst x \<le> clock w'
                  \<and> x = (fst x, fetchLogs_request (fst x), K_fetchLogs True))
           \<and> (Refresh \<notin> set es \<longrightarrow> log_fetches added = refetches added)
           \<and> (refetches added = [] \<longrightarrow>
                  isLoading (ui w') \<and> timers w' = [clock w + 8000] \<and> refetching w' = 0
                  \<and> (clock w + 8000 \<le> clock w' \<longrightarrow>
                        (\<exists>w''. step (Fire 0) w' = Some w''
                           \<and> sent w'' = sent w' @
                                [(clock w', fetchLogs_request (clock w'), K_fetchLogs True)])))
           \<and> (refetches added \<noteq> [] \<longrightarrow>
                  timers w' = [] \<and> (isLoading (ui w') \<longleftrightarrow> refetching w' = 1)
                  \<and> (\<not> isLoading (ui w') \<longleftrightarrow> refetching w' = 0))"
proof -
  have inv: "loading_inv w"
    using loading_inv_run [OF loading_inv_initial assms(1)] .
  note start = cycle_start [OF inv assms(2,3,4)]
  from assms(5) start(1)
  have "run es (w\<lparr>inflight := remove_nth i (inflight w), timers := [clock w + 8000]\<rparr>) = Some w'"
    by simp
  from cycle_run [OF start(2) this assms(6)]
  have c: "cycle (clock w + 8000) (refetches (sent w)) w'" .
  from sent_run [OF assms(5)] obtain added where added: "sent w' = sent w @ added"
    and manual: "Refresh \<notin> set es \<longrightarrow> manual_fetches added = []"
    by auto
  have split: "refetches (sent w') = refetches (sent w) @ refetches added"
    by (simp add: added refetches_def)
  have flow: "Refresh \<notin> set es \<longrightarrow> log_fetches added = refetches added"
    using manual by (simp add: log_fetches_flow)
  from c consider
    (waiting) "isLoading (ui w')" "timers w' = [clock w + 8000]" "refetching w' = 0"
      "refetches added = []"
    | (fired) t where "timers w' = []" "refetching w' = (if isLoading (ui w') then 1 else 0)"
      "clock w + 8000 \<le> t" "t \<le> clock w'"
      "refetches added = [(t, fetchLogs_request t, K_fetchLogs True)]"
    by (auto simp: cycle_def split)
  then have rest: "length (refetches added) \<le> 1
           \<and> (\<forall>x\<in>set (refetches added). clock w + 8000 \<le> fst x \<and> fst x \<le> clock w'
                  \<and> x = (fst x, fetchLogs_request (fst x), K_fetchLogs True))
           \<and> (refetches added = [] \<longrightarrow>
                  isLoading (ui w') \<and> timers w' = [clock w + 8000] \<and> refetching w' = 0
                  \<and> (clock w + 8000 \<le> clock w' \<longrightarrow>
                        (\<exists>w''. step (Fire 0) w' = Some w''
                           \<and> sent w'' = sent w' @
                                [(clock w', fetchLogs_request (clock w'), K_fetchLogs True)])))
           \<and> (refetches added \<noteq> [] \<longrightarrow>
                  timers w' = [] \<and> (isLoading (ui w') \<longleftrightarrow> refetching w' = 1)
                  \<and> (\<not> isLoading (ui w') \<longleftrightarrow> refetching w' = 0))"
  proof cases
    case waiting
    then show ?thesis by (simp add: remove_nth_single)
  next
    case fired
    then show ?thesis by simp
  qed
  show ?thesis
    using added flow rest by (intro exI [of _ added]) (intro conjI; blast)
qed

theorem refetch_after_delay_witness:
  "run [Typing (lit ''hi''), Submit] (initial_world 0) = Some demo_submitted
   \<and> 2 < length (inflight demo_submitted)
   \<and> snd (inflight demo_submitted ! 2) = K_submit
   \<and> response_ok \<lparr>status = 200, json_body = Inr JNull\<rparr>
   \<and> run [Settle 2 (Inr \<lparr>status = 200, json_body = Inr JNull\<rparr>), Tick 8000, Fire 0,
           Settle 2 (Inr \<lparr>status = 200, json_body = Inr (JArr [])\<rparr>)] demo_submitted
        = Some demo_refreshed
   \<and> Submit \<notin> set [Tick 8000, Fire 0, Settle 2 (Inr \<lparr>status = 200, json_body = Inr (JArr [])\<rparr>)]
   \<and> map fst (refetches (sent demo_refreshed)) = [8000]
   \<and> \<not> isLoading (ui demo_refreshed)
   \<and> (\<exists>added. sent demo_refreshed = sent demo_submitted @ added
           \<and> length (refetches added) \<le> 1
           \<and> (\<forall>x\<in>set (refetches added). clock demo_submitted + 8000 \<le> fst x
                  \<and> fst x \<le> clock demo_refreshed
                  \<and> x = (fst x, fetchLogs_request (fst x), K_fetchLogs True))
           \<and> (Refresh \<notin> set [Tick 8000, Fire 0,
                   Settle 2 (Inr \<lparr>status = 200, json_body = Inr (JArr [])\<rparr>)] \<longrightarrow>
                 log_fetches added = refetches added)
           \<and> (refetches added = [] \<longrightarrow>
                  isLoading (ui demo_refreshed) \<and> timers demo_refreshed = [clock demo_submitted + 8000]
                  \<and> refetching demo_refreshed = 0
                  \<and> (clock demo_submitted + 8000 \<le> clock demo_refreshed \<longrightarrow>
                        (\<exists>w''. step (Fire 0) demo_refreshed = Some w''
                           \<and> sent w'' = sent demo_refreshed @
                                [(clock demo_refreshed, fetchLogs_request (clock demo_refreshed),
                                  K_fetchLogs True)])))
           \<and> (refetches added \<noteq> [] \<longrightarrow>
                  timers demo_refreshed = []
                  \<and> (isLoading (ui demo_refreshed) \<longleftrightarrow> refetching demo_refreshed = 1)
                  \<and> (\<not> isLoading (ui demo_refreshed) \<longleftrightarrow> refetching demo_refreshed = 0)))"
proof -
  have len: "2 < length (inflight demo_submitted)"
    using arg_cong [OF demo_submitted_inflight, of length] by simp
  have k: "snd (inflight demo_submitted ! 2) = K_submit"
    using arg_cong [OF demo_submitted_inflight, of "\<lambda>ks. ks ! 2"] len by simp
  have ok: "response_ok \<lparr>status = 200, json_body = Inr JNull\<rparr>"
    by (simp add: response_ok_def)
  have ns: "Submit \<notin> set [Tick 8000, Fire 0, Settle 2 (Inr \<lparr>status = 200, json_body = Inr (JArr [])\<rparr>)]"
    by simp
  note sent_once = refetch_after_delay [OF demo_submitted_eq len k ok demo_refreshed_eq ns]
  show ?thesis
    by (intro conjI) (rule demo_submitted_eq len k ok demo_refreshed_eq ns
        demo_refreshed_facts(1) demo_refreshed_facts(4) sent_once)+
qed

subsection \<open>The event loop: the order of the health probes\<close>

lemma filter_remove_nth_list:
  assumes "i < length xs"
  shows "filter P xs =
     filter P (take i xs) @ (if P (xs ! i) then [xs ! i] else []) @ filter P (drop (Suc i) xs)"
proof -
  have "xs = take i xs @ xs ! i # drop (Suc i) xs"
    using assms by (rule id_take_nth_drop)
  then have "filter P xs = filter P (take i xs @ xs ! i # drop (Suc i) xs)"
    by simp
  then show ?thesis by simp
qed

lemma probing_remove:
  assumes "i < length (inflight w)"
  shows "\<not> is_probe (snd (inflight w ! i)) \<Longrightarrow>
           probing (w\<lparr>inflight := remove_nth i (inflight w)\<rparr>) = probing w"
    and "is_probe (snd (inflight w ! i)) \<Longrightarrow> probing w = [p] \<Longrightarrow>
           inflight w ! i = p \<and> probing (w\<lparr>inflight := remove_nth i (inflight w)\<rparr>) = []"
    and "is_probe (snd (inflight w ! i)) \<Longrightarrow> probing w \<noteq> []"
  using filter_remove_nth_list [OF assms, of "\<lambda>x. is_probe (snd x)"]
  by (auto simp: probing_def remove_nth_def append_eq_Cons_conv split: if_splits)

lemma probe_issue_simps [simp]:
  "probing (issue req k w) = probing w @ (if is_probe k then [(req, k)] else [])"
  "probes_sent (issue req k w) = probes_sent w @ (if is_probe k then [req] else [])"
  by (simp_all add: issue_def probing_def probes_sent_def)

lemma probe_update_simps [simp]:
  "probing (w\<lparr>ui := st\<rparr>) = probing w"
  "probing (w\<lparr>timers := ts\<rparr>) = probing w"
  "probing (w\<lparr>clock := c\<rparr>) = probing w"
  "probes_sent (w\<lparr>ui := st\<rparr>) = probes_sent w"
  "probes_sent (w\<lparr>timers := ts\<rparr>) = probes_sent w"
  "probes_sent (w\<lparr>clock := c\<rparr>) = probes_sent w"
  "probes_sent (w\<lparr>inflight := fs\<rparr>) = probes_sent w"
  by (simp_all add: probing_def probes_sent_def)

lemma next_probe:
  assumes "k < length services"
  shows "drop (Suc k) services = [] \<Longrightarrow> Suc k = length services"
    and "drop (Suc k) services = (n, u) # rest \<Longrightarrow>
           Suc k < length services \<and> probe_of (Suc k) = (GET u, K_probe n rest)
           \<and> map (\<lambda>s. GET (snd s)) (take (Suc (Suc k)) services)
               = map (\<lambda>s. GET (snd s)) (take (Suc k) services) @ [GET u]"
proof -
  show "drop (Suc k) services = [] \<Longrightarrow> Suc k = length services"
    using assms by simp
  assume d: "drop (Suc k) services = (n, u) # rest"
  then have lt: "Suc k < length services"
    by (metis drop_all list.distinct(1) not_le)
  then have "drop (Suc k) services = services ! Suc k # drop (Suc (Suc k)) services"
    by (simp add: Cons_nth_drop_Suc)
  with d have "services ! Suc k = (n, u)" and "drop (Suc (Suc k)) services = rest"
    by simp_all
  with lt show "Suc k < length services \<and> probe_of (Suc k) = (GET u, K_probe n rest)
           \<and> map (\<lambda>s. GET (snd s)) (take (Suc (Suc k)) services)
               = map (\<lambda>s. GET (snd s)) (take (Suc k) services) @ [GET u]"
    by (simp add: probe_of_def take_Suc_conv_app_nth [of "Suc k"])
qed

lemma probe_inv_frame:
  "probe_inv w \<Longrightarrow> probing w' = probing w \<Longrightarrow> probes_sent w' = probes_sent w \<Longrightarrow> probe_inv w'"
  by (simp add: probe_inv_def)

lemma resume_other_probes:
  assumes "\<not> is_probe k"
  shows "probing (resume k out w) = probing w" and "probes_sent (resume k out w) = probes_sent w"
  using assms by (cases k; simp add: handleSubmit_A_resume_cases)+

lemma step_other_probes:
  assumes "step e w = Some w'" and "\<forall>i out. e \<noteq> Settle i out"
  shows "probing w' = probing w" and "probes_sent w' = probes_sent w"
  using assms
  by (cases e; simp add: handleSubmit_A_begin_def split: if_splits; fastforce)+

lemma probe_inv_step:
  assumes "probe_inv w" and "step e w = Some w'"
  shows "probe_inv w'"
proof (cases "\<exists>i out. e = Settle i out")
  case False
  with step_other_probes [OF assms(2)] assms(1) show ?thesis
    by (auto intro: probe_inv_frame)
next
  case True
  then obtain i out where e: "e = Settle i out" by blast
  with assms have i: "i < length (inflight w)"
    and w': "w' = resume (snd (inflight w ! i)) out (w\<lparr>inflight := remove_nth i (inflight w)\<rparr>)"
    by (auto split: if_splits)
  let ?w = "w\<lparr>inflight := remove_nth i (inflight w)\<rparr>"
  from assms(1) obtain k where k: "k < length services"
    and s: "probes_sent w = map (\<lambda>s. GET (snd s)) (take (Suc k) services)"
    and f: "probing w = [probe_of k] \<or> probing w = [] \<and> Suc k = length services"
    by (auto simp: probe_inv_def)
  show ?thesis
  proof (cases "is_probe (snd (inflight w ! i))")
    case False
    with probing_remove(1) [OF i] have "probing ?w = probing w" by simp
    moreover have "probes_sent ?w = probes_sent w" by simp
    ultimately show ?thesis
      using resume_other_probes [OF False, of out ?w] w' assms(1)
      by (auto intro: probe_inv_frame)
  next
    case ip: True
    then obtain name rest where kp: "snd (inflight w ! i) = K_probe name rest"
      by (cases "snd (inflight w ! i)") simp_all
    from probing_remove(3) [OF i ip] f have one: "probing w = [probe_of k]" by simp
    from probing_remove(2) [OF i ip one]
    have at: "inflight w ! i = probe_of k" and gone: "probing ?w = []" by simp_all
    from at kp have rest: "drop (Suc k) services = rest"
      by (simp add: probe_of_def)
    show ?thesis
    proof (cases rest)
      case Nil
      have last: "Suc k = length services"
        using rest unfolding Nil by (rule next_probe(1) [OF k])
      have "probing w' = []" and "probes_sent w' = probes_sent w"
        unfolding w' kp Nil using gone by simp_all
      with k s last show ?thesis
        unfolding probe_inv_def by (intro exI [of _ k]) simp
    next
      case (Cons nu rest')
      obtain n u where nu: "nu = (n, u)" by (cases nu)
      have d: "drop (Suc k) services = (n, u) # rest'"
        using rest unfolding Cons nu .
      note np = next_probe(2) [OF k d]
      from np have lt: "Suc k < length services" by (rule conjunct1)
      from np have po: "probe_of (Suc k) = (GET u, K_probe n rest')" by blast
      from np have tk: "map (\<lambda>s. GET (snd s)) (take (Suc (Suc k)) services)
               = map (\<lambda>s. GET (snd s)) (take (Suc k) services) @ [GET u]" by blast
      have "probing w' = [(GET u, K_probe n rest')]"
        and "probes_sent w' = probes_sent w @ [GET u]"
        unfolding w' kp Cons nu using gone by simp_all
      then have "probing w' = [probe_of (Suc k)]"
        and "probes_sent w' = map (\<lambda>s. GET (snd s)) (take (Suc (Suc k)) services)"
        unfolding po tk s by simp_all
      with lt show ?thesis
        unfolding probe_inv_def by (intro exI [of _ "Suc k"]) simp
    qed
  qed
qed

lemma services_nonempty: "0 < length services"
  by (simp add: services_def)

lemma probe_inv_initial: "probe_inv (initial_world t0)"
proof -
  let ?w0 = "\<lparr>ui = Home_A, clock = t0, inflight = [], timers = [], sent = []\<rparr>"
  have e: "probing ?w0 = []" "probes_sent ?w0 = []"
    by (simp_all add: probing_def probes_sent_def)
  have "probing (initial_world t0) = [probe_of 0]"
    and "probes_sent (initial_world t0) = map (\<lambda>s. GET (snd s)) (take (Suc 0) services)"
    using e by (simp_all add: initial_world_def mount_def services_def probe_of_def)
  with services_nonempty show ?thesis
    unfolding probe_inv_def by (intro exI [of _ 0]) simp
qed

lemma probe_inv_run:
  "probe_inv w \<Longrightarrow> run es w = Some w' \<Longrightarrow> probe_inv w'"
  by (induction es arbitrary: w) (auto split: option.splits intro: probe_inv_step)

text \<open>
  C8, as the code has it: on the log-oriented page the probes are sequenced. In every
  run from the load, the probes sent so far are those of the first \<open>k + 1\<close> configured
  services, in the configured order, and at most one probe is in flight, the last one
  sent; when none is in flight every service has been probed. So a probe is sent only
  once every earlier probe has settled, whatever the outcomes. (The single-response page
  has one probe.)
\<close>

theorem probes_in_sequence:
  assumes "run es (initial_world t0) = Some w"
  shows "\<exists>k<length services.
           probes_sent w = map (\<lambda>s. GET (snd s)) (take (Suc k) services) \<and>
           (probing w = [probe_of k] \<or> probing w = [] \<and> Suc k = length services)"
  using probe_inv_run [OF probe_inv_initial assms] by (simp add: probe_inv_def)

lemma demo_probe_failed_eq:
  "run [Settle 1 (Inl (Error (lit ''Failed to fetch'')))] (initial_world 0) = Some demo_probe_failed"
  by (simp add: demo_probe_failed_def initial_world_def mount_def services_def issue_def)

theorem probes_in_sequence_witness:
  "run [Settle 1 (Inl (Error (lit ''Failed to fetch'')))] (initial_world 0) = Some demo_probe_failed
   \<and> (\<exists>k<length services.
         probes_sent demo_probe_failed = map (\<lambda>s. GET (snd s)) (take (Suc k) services) \<and>
         (probing demo_probe_failed = [probe_of k]
          \<or> probing demo_probe_failed = [] \<and> Suc k = length services))"
  using demo_probe_failed_eq probes_in_sequence [OF demo_probe_failed_eq]
  by (intro conjI)

text \<open>
  C8 as stated fails: when the page has loaded, only the probe of the supervisor has
  been sent; the probe of the orchestrator is sent in the turn in which the probe of
  the supervisor settles.
\<close>

theorem probes_wait_counterexample:
  "probes_sent (initial_world 0)
     = [GET (lit ''https://supervisor-service-497428235894.asia-northeast1.run.app/health'')]
   \<and> probes_sent demo_probe_failed
     = [GET (lit ''https://supervisor-service-497428235894.asia-northeast1.run.app/health''),
        GET (lit ''https://orchestrator-service-497428235894.asia-northeast1.run.app/health'')]
   \<and> map snd (probing demo_probe_failed)
     = [K_probe (lit ''orchestrator'')
          [(lit ''monitor'', lit ''https://monitor-service-497428235894.asia-northeast1.run.app/logs'')]]"
  by (simp add: demo_probe_failed_def initial_world_def mount_def services_def issue_def
      probes_sent_def probing_def remove_nth_def probe_resume_def)

end
